theory Spec2Isabelle
  imports Main "HOL-Library.Word"
begin

unbundle bit_operations_syntax

section \<open>Values shared by the device handle and its collaborators\<close>

type_synonym byte = "8 word"

text \<open>
  Go's \<open>error\<close> values. An error handed up by the operating system or by the device-control
  transport is \<open>Errno\<close> with its message; \<open>Errorf\<close> is an error built by \<open>fmt.Errorf\<close> and
  holds the formatted message; \<open>EOF\<close> and \<open>ErrUnexpectedEOF\<close> are the two sentinel errors
  of package \<open>io\<close> that \<open>binary.Read\<close> can return.
\<close>

datatype error = Errno string | Errorf string | EOF | ErrUnexpectedEOF

fun message :: "error \<Rightarrow> string" where
  "message (Errno m) = m"
| "message (Errorf m) = m"
| "message EOF = ''EOF''"
| "message ErrUnexpectedEOF = ''unexpected EOF''"

text \<open>The verb \<open>%d\<close> of \<open>fmt.Errorf\<close> on an unsigned value: its decimal digits.\<close>

definition digit :: "nat \<Rightarrow> char" where
  "digit n = ''0123456789'' ! n"

fun decimal :: "nat \<Rightarrow> string" where
  "decimal n = (if n < 10 then [digit n] else decimal (n div 10) @ [digit (n mod 10)])"

declare decimal.simps [simp del]

section \<open>Bitmap decoder\<close>

text \<open>
  Modelled from the spec: the bitmap decoder (\<open>newBitmap\<close>, \<open>bitIsSet\<close>, \<open>setBits\<close>) is
  called by the device handle but its file is not among the sources. Section 4.1 of the
  specification fixes it: the buffer is a little-endian bit-field, bit position \<open>p\<close> is bit
  \<open>p mod 8\<close> (bit 0 the least significant) of byte \<open>p div 8\<close>, a position at or beyond eight
  times the buffer length is unset, and the set positions are listed in ascending order.
  \<open>setBits\<close> walks the buffer byte by byte and, within a byte, bit by bit.
\<close>

type_synonym bitmap = "byte list"

definition newBitmap :: "byte list \<Rightarrow> bitmap" where
  "newBitmap bs = bs"

definition bitIsSet :: "bitmap \<Rightarrow> nat \<Rightarrow> bool" where
  "bitIsSet b p = (if 8 * length b \<le> p then False else bit (b ! (p div 8)) (p mod 8))"

fun setBitsFrom :: "nat \<Rightarrow> byte list \<Rightarrow> nat list" where
  "setBitsFrom i [] = []"
| "setBitsFrom i (v # vs) =
     map (\<lambda>j. 8 * i + j) (filter (bit v) [0..<8]) @ setBitsFrom (Suc i) vs"

definition setBits :: "bitmap \<Rightarrow> nat list" where
  "setBits b = setBitsFrom 0 b"

section \<open>Types declared beside the device handle\<close>

text \<open>
  Modelled from the spec: the declarations of \<open>EvType\<close>, \<open>EvCode\<close>, \<open>EvProp\<close>, \<open>StateMap\<close>,
  \<open>AbsInfo\<close> and \<open>InputEvent\<close> are not among the sources. Section 3 of the specification
  gives them: event types and codes are unsigned 16-bit, an axis info is six signed 32-bit
  fields, a state map sends an event code to a boolean, and an event record is a timestamp
  (seconds, microseconds; 64 bits each on the wire, section 6), a 16-bit type, a 16-bit code
  and a signed 32-bit value.
\<close>

type_synonym EvType = "16 word"
type_synonym EvCode = "16 word"
type_synonym EvProp = "16 word"

type_synonym StateMap = "EvCode \<rightharpoonup> bool"

datatype AbsInfo = AbsInfo "32 word" "32 word" "32 word" "32 word" "32 word" "32 word"

record Timeval =
  Sec :: "64 word"
  Usec :: "64 word"

record InputEvent =
  Time :: Timeval
  Type :: EvType
  Code :: EvCode
  Value :: "32 word"

text \<open>\<open>InputEvent{}\<close>, the zero value of the record.\<close>

definition zeroEvent :: InputEvent where
  "zeroEvent = \<lparr>Time = \<lparr>Sec = 0, Usec = 0\<rparr>, Type = 0, Code = 0, Value = 0\<rparr>"

text \<open>
  The event-type constants the handle names come from the generated table of codes, which
  is not among the sources. They are a parameter of the model; the Go conversions
  \<open>EvType(t)\<close>, \<open>EvCode(code)\<close> and \<open>EvProp(p)\<close> of an \<open>int\<close> keep the low 16 bits.
\<close>

record evcodes =
  EV_KEY :: EvType
  EV_ABS :: EvType
  EV_SW :: EvType
  EV_LED :: EvType
  EV_SND :: EvType

definition EvType_of :: "nat \<Rightarrow> EvType" where
  "EvType_of t = of_nat t"

definition EvCode_of :: "nat \<Rightarrow> EvCode" where
  "EvCode_of c = of_nat c"

definition EvProp_of :: "nat \<Rightarrow> EvProp" where
  "EvProp_of p = of_nat p"

section \<open>The operating system and the device-control transport\<close>

text \<open>
  The handle talks to the kernel through \<open>os.Open\<close>, \<open>File.Read\<close> and the \<open>ioctl\<close> wrappers
  of the transport, none of which is among the sources. They are a parameter of the model:
  each call maps the kernel's state (of any type \<open>'s\<close>) to its answer and the next state,
  so that two calls of the same request may answer differently. A wrapper answers with an
  error or with its value; a read answers with the bytes it delivered and the error, if
  any.
\<close>

type_synonym fd = nat

text \<open>An open \<open>os.File\<close>: its descriptor and the name it was opened under.\<close>

record File =
  Fd :: fd
  Name :: string

record 's kernel =
  sys_open :: "string \<Rightarrow> 's \<Rightarrow> (error + fd) \<times> 's"
  sys_read :: "fd \<Rightarrow> nat \<Rightarrow> 's \<Rightarrow> (byte list \<times> error option) \<times> 's"
  ioctlEVIOCGVERSION :: "fd \<Rightarrow> 's \<Rightarrow> (error + 32 word) \<times> 's"
  ioctlEVIOCGBIT :: "fd \<Rightarrow> nat \<Rightarrow> 's \<Rightarrow> (error + byte list) \<times> 's"
  ioctlEVIOCGPROP :: "fd \<Rightarrow> 's \<Rightarrow> (error + byte list) \<times> 's"
  ioctlEVIOCGKEY :: "fd \<Rightarrow> 's \<Rightarrow> (error + byte list) \<times> 's"
  ioctlEVIOCGSW :: "fd \<Rightarrow> 's \<Rightarrow> (error + byte list) \<times> 's"
  ioctlEVIOCGLED :: "fd \<Rightarrow> 's \<Rightarrow> (error + byte list) \<times> 's"
  ioctlEVIOCGSND :: "fd \<Rightarrow> 's \<Rightarrow> (error + byte list) \<times> 's"
  ioctlEVIOCGABS :: "fd \<Rightarrow> nat \<Rightarrow> 's \<Rightarrow> (error + AbsInfo) \<times> 's"

text \<open>
  The state a program runs in: the descriptors its process holds open, and the kernel's
  state. A system call changes the kernel's state only; \<open>os.Open\<close> enters the new descriptor
  in the table and \<open>File.Close\<close> removes it.
\<close>

record 's world =
  open_files :: "fd set"
  kernel_state :: 's

definition syscall :: "('s \<Rightarrow> 'r \<times> 's) \<Rightarrow> 's world \<Rightarrow> 'r \<times> 's world" where
  "syscall call w = (case call (kernel_state w) of (r, s') \<Rightarrow> (r, w\<lparr>kernel_state := s'\<rparr>))"

definition os_Open :: "'s kernel \<Rightarrow> string \<Rightarrow> 's world \<Rightarrow> (error + File) \<times> 's world" where
  "os_Open K path w =
     (case syscall (sys_open K path) w of
        (Inl err, w') \<Rightarrow> (Inl err, w')
      | (Inr n, w') \<Rightarrow>
          (Inr \<lparr>Fd = n, Name = path\<rparr>, w'\<lparr>open_files := insert n (open_files w')\<rparr>))"

definition File_Close :: "File \<Rightarrow> 's world \<Rightarrow> 's world" where
  "File_Close f w = w\<lparr>open_files := open_files w - {Fd f}\<rparr>"

text \<open>
  \<open>File.Read(buffer)\<close> stores the bytes delivered at the front of the buffer and returns
  their number \<open>n\<close> and the error; the bytes of the buffer from \<open>n\<close> on keep their values.
\<close>

definition File_Read ::
  "'s kernel \<Rightarrow> File \<Rightarrow> byte list \<Rightarrow> 's world \<Rightarrow> (byte list \<times> nat \<times> error option) \<times> 's world"
where
  "File_Read K f buffer w =
     (case syscall (sys_read K (Fd f) (length buffer)) w of
        ((data, err), w') \<Rightarrow>
          (let n = min (length data) (length buffer)
           in ((take n data @ drop n buffer, n, err), w')))"

section \<open>Decoding event records\<close>

text \<open>
  \<open>eventsize\<close> is \<open>unsafe.Sizeof(InputEvent{})\<close>: 8 + 8 + 2 + 2 + 4 bytes, with no padding.
  \<open>binary.Read\<close> with \<open>binary.LittleEndian\<close> takes as many bytes from the front of its
  reader as the value needs and decodes the fields in order, least significant byte first;
  with fewer bytes it returns \<open>io.EOF\<close> when the reader is empty and \<open>io.ErrUnexpectedEOF\<close>
  otherwise, and stores nothing.
\<close>

definition eventsize :: nat where
  "eventsize = 24"

fun le_nat :: "byte list \<Rightarrow> nat" where
  "le_nat [] = 0"
| "le_nat (b # bs) = unat b + 256 * le_nat bs"

definition decodeEvent :: "byte list \<Rightarrow> InputEvent" where
  "decodeEvent b =
     \<lparr>Time = \<lparr>Sec = of_nat (le_nat (take 8 b)), Usec = of_nat (le_nat (take 8 (drop 8 b)))\<rparr>,
      Type = of_nat (le_nat (take 2 (drop 16 b))),
      Code = of_nat (le_nat (take 2 (drop 18 b))),
      Value = of_nat (le_nat (take 4 (drop 20 b)))\<rparr>"

fun decodeEvents :: "nat \<Rightarrow> byte list \<Rightarrow> InputEvent list" where
  "decodeEvents 0 b = []"
| "decodeEvents (Suc n) b = decodeEvent (take eventsize b) # decodeEvents n (drop eventsize b)"

definition binary_Read_event :: "byte list \<Rightarrow> error + InputEvent" where
  "binary_Read_event b =
     (if length b < eventsize then Inl (if b = [] then EOF else ErrUnexpectedEOF)
      else Inr (decodeEvent (take eventsize b)))"

definition binary_Read_events :: "byte list \<Rightarrow> nat \<Rightarrow> error + InputEvent list" where
  "binary_Read_events b n =
     (if length b < eventsize * n then Inl (if b = [] then EOF else ErrUnexpectedEOF)
      else Inr (decodeEvents n b))"

section \<open>The device handle\<close>

record InputDevice =
  devfile :: File
  driverVersion :: "32 word"

text \<open>
  \<open>driverVersion\<close> is an \<open>int32\<close>: \<open>>>\<close> on it is the arithmetic shift, \<open>& 0xff\<close> masks the
  shifted 32-bit value, and \<open>int(...)\<close> reads the result as a signed number.
\<close>

definition DriverVersion :: "InputDevice \<Rightarrow> int \<times> int \<times> int" where
  "DriverVersion d =
     (sint (signed_drop_bit 16 (driverVersion d)),
      sint (signed_drop_bit 8 (driverVersion d) AND 0xff),
      sint (signed_drop_bit 0 (driverVersion d) AND 0xff))"

text \<open>
  \<open>Open\<close>: the descriptor is opened, then the driver version is fetched and cached. On a
  failure of the version query the function returns at once with the wrapped error.
\<close>

definition Open :: "'s kernel \<Rightarrow> string \<Rightarrow> 's world \<Rightarrow> (error + InputDevice) \<times> 's world" where
  "Open K path w =
     (case os_Open K path w of
        (Inl err, w1) \<Rightarrow> (Inl err, w1)
      | (Inr f, w1) \<Rightarrow>
          (case syscall (ioctlEVIOCGVERSION K (Fd f)) w1 of
             (Inl err, w2) \<Rightarrow>
               (Inl (Errorf (''Cannot get driver version: '' @ message err)), w2)
           | (Inr v, w2) \<Rightarrow> (Inr \<lparr>devfile = f, driverVersion = v\<rparr>, w2)))"

definition Close :: "InputDevice \<Rightarrow> 's world \<Rightarrow> 's world" where
  "Close d w = File_Close (devfile d) w"

definition Path :: "InputDevice \<Rightarrow> string" where
  "Path d = Name (devfile d)"

text \<open>
  \<open>CapableTypes\<close> and \<open>Properties\<close> return a slice and nothing else. The loop appends the
  converted positions in the order \<open>setBits\<close> lists them.
\<close>

definition CapableTypes :: "'s kernel \<Rightarrow> InputDevice \<Rightarrow> 's world \<Rightarrow> EvType list \<times> 's world" where
  "CapableTypes K d w =
     (case syscall (ioctlEVIOCGBIT K (Fd (devfile d)) 0) w of
        (Inl err, w1) \<Rightarrow> ([], w1)
      | (Inr evBits, w1) \<Rightarrow> (map EvType_of (setBits (newBitmap evBits)), w1))"

definition Properties :: "'s kernel \<Rightarrow> InputDevice \<Rightarrow> 's world \<Rightarrow> EvProp list \<times> 's world" where
  "Properties K d w =
     (case syscall (ioctlEVIOCGPROP K (Fd (devfile d))) w of
        (Inl err, w1) \<Rightarrow> ([], w1)
      | (Inr propBits, w1) \<Rightarrow> (map EvProp_of (setBits (newBitmap propBits)), w1))"

text \<open>
  \<open>State\<close>. The \<open>switch\<close> on the type picks the state query, or makes the error of the
  \<open>default\<close> branch without a query; the final loop stores, for each position listed by the
  bitmap of supported codes, the state bit of that position under the converted code.
\<close>

definition stateSwitch ::
  "evcodes \<Rightarrow> 's kernel \<Rightarrow> fd \<Rightarrow> EvType \<Rightarrow> 's world \<Rightarrow> (error + byte list) \<times> 's world"
where
  "stateSwitch c K n t w =
     (if t = EV_KEY c then syscall (ioctlEVIOCGKEY K n) w
      else if t = EV_SW c then syscall (ioctlEVIOCGSW K n) w
      else if t = EV_LED c then syscall (ioctlEVIOCGLED K n) w
      else if t = EV_SND c then syscall (ioctlEVIOCGSND K n) w
      else (Inl (Errorf (''Unsupported evType '' @ decimal (unat t))), w))"

fun stateLoop :: "bitmap \<Rightarrow> nat list \<Rightarrow> StateMap \<Rightarrow> StateMap" where
  "stateLoop stateBitmap [] st = st"
| "stateLoop stateBitmap (code # codes) st =
     stateLoop stateBitmap codes (st(EvCode_of code \<mapsto> bitIsSet stateBitmap code))"

definition State ::
  "evcodes \<Rightarrow> 's kernel \<Rightarrow> InputDevice \<Rightarrow> EvType \<Rightarrow> 's world \<Rightarrow> (error + StateMap) \<times> 's world"
where
  "State c K d t w =
     (let n = Fd (devfile d) in
      case syscall (ioctlEVIOCGBIT K n 0) w of
        (Inl err, w1) \<Rightarrow> (Inl (Errorf (''Cannot get evBits: '' @ message err)), w1)
      | (Inr evBits, w1) \<Rightarrow>
          (let evBitmap = newBitmap evBits in
           if \<not> bitIsSet evBitmap (unat t) then (Inr Map.empty, w1)
           else
             case syscall (ioctlEVIOCGBIT K n (unat t)) w1 of
               (Inl err, w2) \<Rightarrow> (Inl (Errorf (''Cannot get evBits: '' @ message err)), w2)
             | (Inr codeBits, w2) \<Rightarrow>
                 (let codeBitmap = newBitmap codeBits in
                  case stateSwitch c K n t w2 of
                    (Inl err, w3) \<Rightarrow> (Inl err, w3)
                  | (Inr stateBits, w3) \<Rightarrow>
                      (let stateBitmap = newBitmap stateBits
                       in (Inr (stateLoop stateBitmap (setBits codeBitmap) Map.empty), w3)))))"

text \<open>
  \<open>AbsInfos\<close>: one axis query per listed position, in order; the answer is stored only when
  the query returned no error.
\<close>

fun absLoop ::
  "'s kernel \<Rightarrow> fd \<Rightarrow> nat list \<Rightarrow> (EvCode \<rightharpoonup> AbsInfo) \<Rightarrow> 's world
     \<Rightarrow> (EvCode \<rightharpoonup> AbsInfo) \<times> 's world"
where
  "absLoop K n [] a w = (a, w)"
| "absLoop K n (abs' # rest) a w =
     (case syscall (ioctlEVIOCGABS K n abs') w of
        (Inl err, w') \<Rightarrow> absLoop K n rest a w'
      | (Inr absInfo, w') \<Rightarrow> absLoop K n rest (a(EvCode_of abs' \<mapsto> absInfo)) w')"

definition AbsInfos ::
  "evcodes \<Rightarrow> 's kernel \<Rightarrow> InputDevice \<Rightarrow> 's world \<Rightarrow> (error + (EvCode \<rightharpoonup> AbsInfo)) \<times> 's world"
where
  "AbsInfos c K d w =
     (case syscall (ioctlEVIOCGBIT K (Fd (devfile d)) (unat (EV_ABS c))) w of
        (Inl err, w1) \<Rightarrow> (Inl (Errorf (''Cannot get absBits: '' @ message err)), w1)
      | (Inr absBits, w1) \<Rightarrow>
          (case absLoop K (Fd (devfile d)) (setBits (newBitmap absBits)) Map.empty w1 of
             (a, w2) \<Rightarrow> (Inr a, w2)))"

text \<open>
  For stating what \<open>AbsInfos\<close> returns: the axis queries the loop issues from a given state,
  each with its answer, in the order of the loop. This list is not computed by the handle.
\<close>

fun absQueries :: "'s kernel \<Rightarrow> fd \<Rightarrow> nat list \<Rightarrow> 's world \<Rightarrow> (nat \<times> (error + AbsInfo)) list" where
  "absQueries K n [] w = []"
| "absQueries K n (abs' # rest) w =
     (case syscall (ioctlEVIOCGABS K n abs') w of (r, w') \<Rightarrow> (abs', r) # absQueries K n rest w')"

text \<open>
  \<open>Read\<close> returns its slice and its error side by side. The loop that removes the trailing
  structures runs over the indices of the decoded slice and cuts it at the first index
  whose seconds are zero.
\<close>

function trimLoop :: "nat \<Rightarrow> InputEvent list \<Rightarrow> InputEvent list" where
  "trimLoop i events =
     (if i < length events
      then (if Sec (Time (events ! i)) = 0 then take i events else trimLoop (Suc i) events)
      else events)"
  by pat_completeness auto
termination
  by (relation "measure (\<lambda>(i, events). length events - i)") auto

declare trimLoop.simps [simp del]

definition Read ::
  "'s kernel \<Rightarrow> InputDevice \<Rightarrow> 's world \<Rightarrow> (InputEvent list \<times> error option) \<times> 's world"
where
  "Read K d w =
     (let events = replicate 16 zeroEvent;
          buffer = replicate (eventsize * 16) 0
      in case File_Read K (devfile d) buffer w of
           ((buffer', n, Some err), w') \<Rightarrow> ((events, Some err), w')
         | ((buffer', n, None), w') \<Rightarrow>
             (case binary_Read_events buffer' (length events) of
                Inl err \<Rightarrow> ((events, Some err), w')
              | Inr events' \<Rightarrow> ((trimLoop 0 events', None), w')))"

text \<open>
  \<open>ReadOne\<close> returns a pointer and an error: the zero event with the error of a failed read,
  \<open>nil\<close> with the error of a failed decoding, the decoded event otherwise.
\<close>

definition ReadOne ::
  "'s kernel \<Rightarrow> InputDevice \<Rightarrow> 's world \<Rightarrow> (InputEvent option \<times> error option) \<times> 's world"
where
  "ReadOne K d w =
     (let event = zeroEvent;
          buffer = replicate eventsize 0
      in case File_Read K (devfile d) buffer w of
           ((buffer', n, Some err), w') \<Rightarrow> ((Some event, Some err), w')
         | ((buffer', n, None), w') \<Rightarrow>
             (case binary_Read_event buffer' of
                Inl err \<Rightarrow> ((None, Some err), w')
              | Inr event' \<Rightarrow> ((Some event', None), w')))"


section \<open>A simulated device\<close>

text \<open>
  For running the handle on concrete inputs: the event-type constants with the values of the
  kernel's header, and a simulated kernel in the sense of section 9 of the specification.
  Its state is the number of calls the device still answers before it is unplugged; from
  then on every call fails. While plugged in, the device reports the event types 0, 1, 2,
  3, 5, 17 and 18, the keys 1 and 2 of which key 2 is down (the key-state bit-field has bit
  3 set besides), two relative and two absolute axes of which only axis 0 answers its info
  query, and delivers the bytes \<open>pending\<close> on its stream.
\<close>

definition kernelCodes :: evcodes where
  "kernelCodes = \<lparr>EV_KEY = 0x01, EV_ABS = 0x03, EV_SW = 0x05, EV_LED = 0x11, EV_SND = 0x12\<rparr>"

definition answer :: "'r \<Rightarrow> 'r \<Rightarrow> nat \<Rightarrow> 'r \<times> nat" where
  "answer unplugged r s = (if s = 0 then (unplugged, 0) else (r, s - 1))"

definition ENODEV :: error where
  "ENODEV = Errno ''no such device''"

definition EINVAL :: error where
  "EINVAL = Errno ''invalid argument''"

definition simKernel :: "byte list \<Rightarrow> nat kernel" where
  "simKernel pending =
     \<lparr>sys_open = (\<lambda>path. answer (Inl ENODEV) (Inr 3)),
      sys_read = (\<lambda>n len. answer ([], Some ENODEV) (take len pending, None)),
      ioctlEVIOCGVERSION = (\<lambda>n. answer (Inl ENODEV) (Inr 0x010001)),
      ioctlEVIOCGBIT = (\<lambda>n sel. answer (Inl ENODEV)
         (if sel = 0 then Inr [0x2F, 0x00, 0x06]
          else if sel = 1 then Inr [0x06]
          else if sel = 2 \<or> sel = 3 then Inr [0x03]
          else Inl EINVAL)),
      ioctlEVIOCGPROP = (\<lambda>n. answer (Inl ENODEV) (Inr [0x01])),
      ioctlEVIOCGKEY = (\<lambda>n. answer (Inl ENODEV) (Inr [0x0C])),
      ioctlEVIOCGSW = (\<lambda>n. answer (Inl ENODEV) (Inr [0x00])),
      ioctlEVIOCGLED = (\<lambda>n. answer (Inl ENODEV) (Inr [0x00])),
      ioctlEVIOCGSND = (\<lambda>n. answer (Inl ENODEV) (Inr [0x00])),
      ioctlEVIOCGABS = (\<lambda>n axis. answer (Inl ENODEV)
         (if axis = 0 then Inr (AbsInfo 5 0 255 0 0 0) else Inl EINVAL))\<rparr>"

text \<open>
  The 24 bytes of one event record: seconds 1000, microseconds 500, type 1, code 30,
  value 1.
\<close>

definition keyPress :: "byte list" where
  "keyPress = [0xE8, 0x03, 0, 0, 0, 0, 0, 0,  0xF4, 0x01, 0, 0, 0, 0, 0, 0,  1, 0,  30, 0,  1, 0, 0, 0]"

definition keyPressEvent :: InputEvent where
  "keyPressEvent = \<lparr>Time = \<lparr>Sec = 1000, Usec = 500\<rparr>, Type = 1, Code = 30, Value = 1\<rparr>"

definition simDevice :: InputDevice where
  "simDevice = \<lparr>devfile = \<lparr>Fd = 3, Name = ''/dev/input/event0''\<rparr>, driverVersion = 0x010001\<rparr>"

definition simWorld :: "nat \<Rightarrow> nat world" where
  "simWorld s = \<lparr>open_files = {3}, kernel_state = s\<rparr>"


section \<open>Properties of the bitmap decoder\<close>

lemma in_byte_chunk:
  "p \<in> set (map (\<lambda>j. 8 * i + j) (filter (bit v) [0..<8]))
     \<longleftrightarrow> 8 * i \<le> p \<and> p < 8 * i + 8 \<and> bit (v :: byte) (p - 8 * i)"
proof
  assume "p \<in> set (map (\<lambda>j. 8 * i + j) (filter (bit v) [0..<8]))"
  then obtain j where "p = 8 * i + j" "j < 8" "bit v j" by auto
  then show "8 * i \<le> p \<and> p < 8 * i + 8 \<and> bit v (p - 8 * i)" by simp
next
  assume a: "8 * i \<le> p \<and> p < 8 * i + 8 \<and> bit v (p - 8 * i)"
  then have "p - 8 * i < 8" by arith
  then have "p - 8 * i \<in> set (filter (bit v) [0..<8])" using a by simp
  then have "8 * i + (p - 8 * i) \<in> (\<lambda>j. 8 * i + j) ` set (filter (bit v) [0..<8])"
    by (rule imageI)
  moreover have "8 * i + (p - 8 * i) = p" using a by arith
  ultimately show "p \<in> set (map (\<lambda>j. 8 * i + j) (filter (bit v) [0..<8]))"
    by (simp only: set_map)
qed

lemma in_setBitsFrom_Cons:
  "p \<in> set (setBitsFrom i (v # vs)) \<longleftrightarrow>
     (8 * i \<le> p \<and> p < 8 * i + 8 \<and> bit v (p - 8 * i)) \<or> p \<in> set (setBitsFrom (Suc i) vs)"
  by (simp only: setBitsFrom.simps set_append Un_iff in_byte_chunk)

lemma in_setBitsFrom:
  "p \<in> set (setBitsFrom i vs)
     \<longleftrightarrow> 8 * i \<le> p \<and> p < 8 * (i + length vs) \<and> bit (vs ! (p div 8 - i)) (p mod 8)"
proof (induction vs arbitrary: i)
  case Nil
  show ?case by simp
next
  case (Cons v vs)
  show ?case
  proof (cases "p < 8 * i + 8")
    case True
    then have notrest: "p \<notin> set (setBitsFrom (Suc i) vs)"
      by (simp add: Cons.IH [of "Suc i"])
    show ?thesis
    proof (cases "8 * i \<le> p")
      case False
      then show ?thesis using notrest by (simp add: in_setBitsFrom_Cons del: setBitsFrom.simps)
    next
      case le: True
      have d: "p div 8 = i" using True le by arith
      have "p = 8 * (p div 8) + p mod 8" by simp
      then have m: "p - 8 * i = p mod 8" unfolding d by arith
      show ?thesis using notrest True le by (simp add: in_setBitsFrom_Cons d m del: setBitsFrom.simps)
    qed
  next
    case False
    then have ge: "8 * Suc i \<le> p" by simp
    then have "Suc i \<le> p div 8" by arith
    then have "p div 8 - i = Suc (p div 8 - Suc i)" by arith
    then have nth: "(v # vs) ! (p div 8 - i) = vs ! (p div 8 - Suc i)" by simp
    have "8 * i \<le> p" using ge by simp
    then show ?thesis using False ge
      by (simp add: in_setBitsFrom_Cons Cons.IH [of "Suc i"] nth del: setBitsFrom.simps)
  qed
qed

lemma bitIsSet_iff_setBits: "bitIsSet b p \<longleftrightarrow> p \<in> set (setBits b)"
  by (simp add: bitIsSet_def setBits_def in_setBitsFrom)

lemma setBitsFrom_bounds: "x \<in> set (setBitsFrom i vs) \<Longrightarrow> 8 * i \<le> x \<and> x < 8 * (i + length vs)"
  by (simp add: in_setBitsFrom)

lemma sorted_setBitsFrom: "sorted_wrt (<) (setBitsFrom i vs)"
proof (induction vs arbitrary: i)
  case Nil
  show ?case by simp
next
  case (Cons v vs)
  define c where "c = map (\<lambda>j. 8 * i + j) (filter (bit v) [0..<8])"
  have "sorted_wrt (<) (filter (bit v) [0..<8])"
    by (rule sorted_wrt_filter) (rule sorted_wrt_upt)
  then have 1: "sorted_wrt (<) c"
    unfolding c_def by (simp only: sorted_wrt_map add_less_cancel_left)
  have 2: "\<forall>x\<in>set c. \<forall>y\<in>set (setBitsFrom (Suc i) vs). x < y"
  proof (intro ballI)
    fix x y
    assume "x \<in> set c" and "y \<in> set (setBitsFrom (Suc i) vs)"
    then have "x < 8 * i + 8" and "8 * Suc i \<le> y"
      unfolding c_def by (simp_all only: in_byte_chunk in_setBitsFrom)
    then show "x < y" by simp
  qed
  have "setBitsFrom i (v # vs) = c @ setBitsFrom (Suc i) vs"
    unfolding c_def by simp
  then show ?case using 1 2 Cons.IH [of "Suc i"] by (simp only: sorted_wrt_append)
qed

lemma setBitsFrom_zeros: "setBitsFrom i (replicate n 0) = []"
  by (induction n arbitrary: i) simp_all

lemma bit_ff: "j < 8 \<Longrightarrow> bit (0xff :: byte) j"
proof -
  assume j: "j < 8"
  have m: "(0xff :: byte) = mask 8" by (simp add: mask_eq_exp_minus_1)
  show "bit (0xff :: byte) j" by (subst m) (simp add: bit_mask_iff j)
qed

lemma setBitsFrom_ones: "setBitsFrom i (replicate n 0xff) = [8 * i ..< 8 * (i + n)]"
proof (induction n arbitrary: i)
  case 0
  show ?case by simp
next
  case (Suc n)
  have f: "filter (bit (0xff :: byte)) [0..<8] = [0..<8]"
  proof (rule filter_True, rule ballI)
    fix x :: nat
    assume "x \<in> set [0..<8]"
    then have "x < 8" by simp
    then show "bit (0xff :: byte) x" by (rule bit_ff)
  qed
  have "map (\<lambda>j. 8 * i + j) [0..<8] = [8 * i ..< 8 * i + 8]"
    using map_add_upt [of "8 * i" 8] by (simp add: add.commute)
  moreover have "[8 * i ..< 8 * (i + Suc n)] = [8 * i ..< 8 * i + 8] @ [8 * Suc i ..< 8 * (Suc i + n)]"
    using upt_add_eq_append [of "8 * i" "8 * i + 8" "8 * n"] by (simp add: algebra_simps)
  ultimately show ?case using Suc.IH [of "Suc i"] f by simp
qed

text \<open>
  Claim C4. For every buffer \<open>b\<close> and position \<open>p\<close> the single-bit test holds exactly when
  \<open>p\<close> is listed by \<open>setBits\<close>; the list is strictly ascending, hence free of duplicates;
  an empty or all-zero buffer has no set bits; an all-ones buffer of \<open>n\<close> bytes has exactly the
  positions \<open>0\<close> to \<open>8 n - 1\<close>; and a position at or beyond eight times the buffer length
  tests as unset (the test is a total function: there is no error to return).
\<close>

theorem bitmap_decoder:
  "(bitIsSet b p \<longleftrightarrow> p \<in> set (setBits b)) \<and>
   sorted_wrt (<) (setBits b) \<and> distinct (setBits b) \<and>
   setBits [] = [] \<and> setBits (replicate n 0) = [] \<and>
   setBits (replicate n 0xff) = [0..<8 * n] \<and>
   (8 * length b \<le> p \<longrightarrow> \<not> bitIsSet b p)"
proof -
  have s: "sorted_wrt (<) (setBits b)"
    unfolding setBits_def by (rule sorted_setBitsFrom)
  then have d: "distinct (setBits b)"
    by (simp add: strict_sorted_iff)
  have z: "setBits (replicate n 0) = []"
    unfolding setBits_def by (rule setBitsFrom_zeros)
  have o: "setBits (replicate n 0xff) = [0..<8 * n]"
    unfolding setBits_def by (simp add: setBitsFrom_ones)
  have r: "8 * length b \<le> p \<longrightarrow> \<not> bitIsSet b p"
    by (simp add: bitIsSet_def)
  show ?thesis using s d z o r bitIsSet_iff_setBits [of b p]
    by (simp add: setBits_def)
qed

theorem bitmap_decoder_witness:
  "(bitIsSet [0x05, 0x80] 17 \<longleftrightarrow> 17 \<in> set (setBits [0x05, 0x80])) \<and>
   sorted_wrt (<) (setBits [0x05, 0x80]) \<and> distinct (setBits [0x05, 0x80]) \<and>
   setBits [] = [] \<and> setBits (replicate 2 0) = [] \<and>
   setBits (replicate 2 0xff) = [0..<8 * 2] \<and>
   8 * length [0x05 :: byte, 0x80] \<le> 17 \<and> \<not> bitIsSet [0x05, 0x80] 17"
proof -
  have h: "8 * length [0x05 :: byte, 0x80] \<le> 17" by simp
  show ?thesis using h bitmap_decoder [of "[0x05, 0x80]" 17 2] by blast
qed

section \<open>Properties of the device handle\<close>

lemma and_ff_sint:
  fixes w :: "32 word"
  shows "sint (w AND 0xff) = uint w mod 256"
proof -
  have m: "(0xff :: 32 word) = mask 8" by (simp add: mask_eq_exp_minus_1)
  have t: "w AND 0xff = take_bit 8 w" unfolding m by (simp add: take_bit_eq_mask)
  have "sint (take_bit 8 w) = signed_take_bit 31 (take_bit 8 (uint w))"
    by (simp add: sint_uint unsigned_take_bit_eq)
  also have "\<dots> = take_bit 8 (uint w)"
    by (rule bit_eqI) (auto simp add: bit_simps)
  finally show ?thesis using t by (simp add: take_bit_eq_mod)
qed

lemma sdrop8:
  fixes w :: "32 word"
  shows "uint (signed_drop_bit 8 w) mod 256 = uint w div 256 mod 256"
proof -
  have "take_bit 8 (uint (signed_drop_bit 8 w)) = take_bit 8 (drop_bit 8 (uint w))"
    by (rule bit_eqI) (auto simp add: bit_simps)
  then show ?thesis
    by (simp only: take_bit_eq_mod drop_bit_eq_div) simp
qed


text \<open>
  Claim C9. A handle whose cached packed driver version is \<open>0x00040113\<close> reports
  \<open>(4, 1, 19)\<close>. In general the major part is the signed value shifted right by 16 bits,
  the minor part is bits 8 to 15 and the micro part is bits 0 to 7.
\<close>

theorem DriverVersion_parts:
  "DriverVersion \<lparr>devfile = f, driverVersion = 0x00040113\<rparr> = (4, 1, 19) \<and>
   DriverVersion d =
     (sint (driverVersion d) div 2 ^ 16,
      uint (driverVersion d) div 2 ^ 8 mod 2 ^ 8,
      uint (driverVersion d) mod 2 ^ 8)"
proof
  show "DriverVersion \<lparr>devfile = f, driverVersion = 0x00040113\<rparr> = (4, 1, 19)"
    by (simp add: DriverVersion_def)
  show "DriverVersion d =
     (sint (driverVersion d) div 2 ^ 16,
      uint (driverVersion d) div 2 ^ 8 mod 2 ^ 8,
      uint (driverVersion d) mod 2 ^ 8)"
    by (simp add: DriverVersion_def and_ff_sint sdrop8 sint_signed_drop_bit_eq drop_bit_eq_div)
qed


section \<open>Properties of the capability and state queries\<close>

lemmas sim_defs = simKernel_def answer_def simDevice_def simWorld_def kernelCodes_def
  ENODEV_def EINVAL_def syscall_def

text \<open>
  Claim C7. When the capability query fails, \<open>CapableTypes\<close> returns the empty slice, and
  when the property query fails, \<open>Properties\<close> returns the empty slice. Neither function has
  an error among its results, so the failure cannot reach the caller.
\<close>

theorem capability_failure_swallowed:
  "(fst (syscall (ioctlEVIOCGBIT K (Fd (devfile d)) 0) w) = Inl err
      \<longrightarrow> fst (CapableTypes K d w) = []) \<and>
   (fst (syscall (ioctlEVIOCGPROP K (Fd (devfile d))) w) = Inl err'
      \<longrightarrow> fst (Properties K d w) = [])"
  by (auto simp add: CapableTypes_def Properties_def split: prod.splits sum.splits)

theorem capability_failure_swallowed_witness:
  "fst (syscall (ioctlEVIOCGBIT (simKernel []) (Fd (devfile simDevice)) 0) (simWorld 0)) = Inl ENODEV \<and>
   fst (CapableTypes (simKernel []) simDevice (simWorld 0)) = [] \<and>
   fst (syscall (ioctlEVIOCGPROP (simKernel []) (Fd (devfile simDevice))) (simWorld 0)) = Inl ENODEV \<and>
   fst (Properties (simKernel []) simDevice (simWorld 0)) = []"
proof -
  have q: "fst (syscall (ioctlEVIOCGBIT (simKernel []) (Fd (devfile simDevice)) 0) (simWorld 0)) = Inl ENODEV"
    by (simp add: sim_defs)
  have q': "fst (syscall (ioctlEVIOCGPROP (simKernel []) (Fd (devfile simDevice))) (simWorld 0)) = Inl ENODEV"
    by (simp add: sim_defs)
  show ?thesis
    using q q' capability_failure_swallowed [of "simKernel []" simDevice "simWorld 0" ENODEV ENODEV]
    by blast
qed

text \<open>
  Claim C5. When the global event-type bit-field is obtained and the bit of the requested
  type is not set in it, \<open>State\<close> returns the empty map and no error. No further query is
  issued: the state is the one the first query left, whatever a state query would answer.
\<close>

theorem State_type_not_marked:
  assumes "syscall (ioctlEVIOCGBIT K (Fd (devfile d)) 0) w = (Inr evBits, w1)"
    and "\<not> bitIsSet evBits (unat t)"
  shows "State c K d t w = (Inr Map.empty, w1)"
  using assms by (simp add: State_def newBitmap_def)

theorem State_type_not_marked_witness:
  "syscall (ioctlEVIOCGBIT (simKernel []) (Fd (devfile simDevice)) 0) (simWorld 10)
     = (Inr [0x2F, 0x00, 0x06], simWorld 9) \<and>
   \<not> bitIsSet [0x2F, 0x00, 0x06] (unat (4 :: EvType)) \<and>
   State kernelCodes (simKernel []) simDevice 4 (simWorld 10) = (Inr Map.empty, simWorld 9)"
proof -
  have q: "syscall (ioctlEVIOCGBIT (simKernel []) (Fd (devfile simDevice)) 0) (simWorld 10)
     = (Inr [0x2F, 0x00, 0x06], simWorld 9)"
    by (simp add: sim_defs)
  have b: "\<not> bitIsSet [0x2F, 0x00, 0x06] (unat (4 :: EvType))"
    by (simp add: bitIsSet_def)
  show ?thesis using q b State_type_not_marked [OF q b, of kernelCodes] by simp
qed

text \<open>
  Claim C6, as the code has it. For a type outside key, switch, LED and sound whose bit is
  set in the global bit-field, \<open>State\<close> first fetches the bit-field of supported codes. When
  that query succeeds, the result is the error \<open>Unsupported evType\<close> followed by the type in
  decimal, made without any state query, and there is no map. When that query fails, the
  result is its error wrapped as \<open>Cannot get evBits\<close>, and there is no map either.
\<close>

theorem State_other_type_unsupported:
  assumes q0: "syscall (ioctlEVIOCGBIT K (Fd (devfile d)) 0) w = (Inr evBits, w1)"
    and marked: "bitIsSet evBits (unat t)"
    and other: "t \<notin> {EV_KEY c, EV_SW c, EV_LED c, EV_SND c}"
  shows "(syscall (ioctlEVIOCGBIT K (Fd (devfile d)) (unat t)) w1 = (Inr codeBits, w2)
           \<longrightarrow> State c K d t w
                 = (Inl (Errorf (''Unsupported evType '' @ decimal (unat t))), w2)) \<and>
         (syscall (ioctlEVIOCGBIT K (Fd (devfile d)) (unat t)) w1 = (Inl err, w2)
           \<longrightarrow> State c K d t w
                 = (Inl (Errorf (''Cannot get evBits: '' @ message err)), w2))"
proof (intro conjI impI)
  assume "syscall (ioctlEVIOCGBIT K (Fd (devfile d)) (unat t)) w1 = (Inr codeBits, w2)"
  then show "State c K d t w = (Inl (Errorf (''Unsupported evType '' @ decimal (unat t))), w2)"
    using q0 marked other by (simp add: State_def newBitmap_def stateSwitch_def)
next
  assume "syscall (ioctlEVIOCGBIT K (Fd (devfile d)) (unat t)) w1 = (Inl err, w2)"
  then show "State c K d t w = (Inl (Errorf (''Cannot get evBits: '' @ message err)), w2)"
    using q0 marked by (simp add: State_def newBitmap_def)
qed

theorem State_other_type_unsupported_witness:
  "syscall (ioctlEVIOCGBIT (simKernel []) (Fd (devfile simDevice)) 0) (simWorld 10)
     = (Inr [0x2F, 0x00, 0x06], simWorld 9) \<and>
   bitIsSet [0x2F, 0x00, 0x06] (unat (2 :: EvType)) \<and>
   (2 :: EvType) \<notin> {EV_KEY kernelCodes, EV_SW kernelCodes, EV_LED kernelCodes, EV_SND kernelCodes} \<and>
   syscall (ioctlEVIOCGBIT (simKernel []) (Fd (devfile simDevice)) (unat (2 :: EvType))) (simWorld 9)
     = (Inr [0x03], simWorld 8) \<and>
   State kernelCodes (simKernel []) simDevice 2 (simWorld 10)
     = (Inl (Errorf ''Unsupported evType 2''), simWorld 8) \<and>
   syscall (ioctlEVIOCGBIT (simKernel []) (Fd (devfile simDevice)) 0) (simWorld 1)
     = (Inr [0x2F, 0x00, 0x06], simWorld 0) \<and>
   syscall (ioctlEVIOCGBIT (simKernel []) (Fd (devfile simDevice)) (unat (2 :: EvType))) (simWorld 0)
     = (Inl ENODEV, simWorld 0) \<and>
   State kernelCodes (simKernel []) simDevice 2 (simWorld 1)
     = (Inl (Errorf ''Cannot get evBits: no such device''), simWorld 0)"
proof -
  have q0: "syscall (ioctlEVIOCGBIT (simKernel []) (Fd (devfile simDevice)) 0) (simWorld 10)
     = (Inr [0x2F, 0x00, 0x06], simWorld 9)"
    by (simp add: sim_defs)
  have b: "bitIsSet [0x2F, 0x00, 0x06] (unat (2 :: EvType))"
    by (simp add: bitIsSet_def)
  have t: "(2 :: EvType) \<notin> {EV_KEY kernelCodes, EV_SW kernelCodes, EV_LED kernelCodes, EV_SND kernelCodes}"
    by (simp add: kernelCodes_def)
  have q1: "syscall (ioctlEVIOCGBIT (simKernel []) (Fd (devfile simDevice)) (unat (2 :: EvType)))
      (simWorld 9) = (Inr [0x03], simWorld 8)"
    by (simp add: sim_defs)
  have d: "decimal 2 = ''2''"
    by (simp add: decimal.simps digit_def)
  have ok: "State kernelCodes (simKernel []) simDevice 2 (simWorld 10)
     = (Inl (Errorf ''Unsupported evType 2''), simWorld 8)"
    using q1 State_other_type_unsupported [OF q0 b t, of "[0x03]" "simWorld 8"]
    by (simp add: d)
  have p0: "syscall (ioctlEVIOCGBIT (simKernel []) (Fd (devfile simDevice)) 0) (simWorld 1)
     = (Inr [0x2F, 0x00, 0x06], simWorld 0)"
    by (simp add: sim_defs)
  have p1: "syscall (ioctlEVIOCGBIT (simKernel []) (Fd (devfile simDevice)) (unat (2 :: EvType)))
      (simWorld 0) = (Inl ENODEV, simWorld 0)"
    by (simp add: sim_defs)
  have m: "message ENODEV = ''no such device''"
    by (simp add: ENODEV_def)
  have failed: "State kernelCodes (simKernel []) simDevice 2 (simWorld 1)
     = (Inl (Errorf ''Cannot get evBits: no such device''), simWorld 0)"
    using p1 State_other_type_unsupported [OF p0 b t, of _ "simWorld 0" ENODEV]
    by (simp add: m)
  show ?thesis using q0 b t q1 ok p0 p1 failed by blast
qed

text \<open>
  The claim as written does not hold for every such type: when the query for the supported
  codes fails, its error is wrapped and returned before the type is looked at. Here the
  device is unplugged after the first query, and type 2 is answered with the wrapped
  transport error.
\<close>

theorem State_other_type_counterexample:
  "syscall (ioctlEVIOCGBIT (simKernel []) (Fd (devfile simDevice)) 0) (simWorld 1)
     = (Inr [0x2F, 0x00, 0x06], simWorld 0) \<and>
   bitIsSet [0x2F, 0x00, 0x06] (unat (2 :: EvType)) \<and>
   (2 :: EvType) \<notin> {EV_KEY kernelCodes, EV_SW kernelCodes, EV_LED kernelCodes, EV_SND kernelCodes} \<and>
   State kernelCodes (simKernel []) simDevice 2 (simWorld 1)
     = (Inl (Errorf ''Cannot get evBits: no such device''), simWorld 0) \<and>
   fst (State kernelCodes (simKernel []) simDevice 2 (simWorld 1))
     \<noteq> Inl (Errorf (''Unsupported evType '' @ decimal (unat (2 :: EvType))))"
  by (simp add: sim_defs State_def newBitmap_def bitIsSet_def)

subsection \<open>The state map\<close>

lemma setBits_bound: "p \<in> set (setBits b) \<Longrightarrow> p < 8 * length b"
  by (simp add: setBits_def in_setBitsFrom)

lemma unat_EvCode_of: "p < 2 ^ 16 \<Longrightarrow> unat (EvCode_of p) = p"
  by (simp add: EvCode_of_def unat_of_nat)

lemma EvCode_of_unat: "EvCode_of (unat code) = code"
  by (simp add: EvCode_of_def)

lemma dom_stateLoop: "dom (stateLoop sb ps st) = dom st \<union> EvCode_of ` set ps"
  by (induction ps arbitrary: st) auto

lemma stateLoop_other: "code \<notin> EvCode_of ` set ps \<Longrightarrow> stateLoop sb ps st code = st code"
  by (induction ps arbitrary: st) auto

lemma stateLoop_value:
  "inj_on EvCode_of (set ps) \<Longrightarrow> p \<in> set ps \<Longrightarrow>
     stateLoop sb ps st (EvCode_of p) = Some (bitIsSet sb p)"
proof (induction ps arbitrary: st)
  case Nil
  then show ?case by simp
next
  case (Cons q qs)
  have inj: "inj_on EvCode_of (set qs)"
    using Cons.prems(1) by (simp add: inj_on_def)
  show ?case
  proof (cases "p \<in> set qs")
    case True
    then show ?thesis using Cons.IH [OF inj] by simp
  next
    case False
    then have pq: "p = q" using Cons.prems(2) by simp
    have "EvCode_of q \<notin> EvCode_of ` set qs"
    proof
      assume "EvCode_of q \<in> EvCode_of ` set qs"
      then obtain r where r: "r \<in> set qs" "EvCode_of q = EvCode_of r" by auto
      then have "q = r" using Cons.prems(1) by (simp add: inj_on_def)
      then show False using r(1) False pq by simp
    qed
    then show ?thesis using pq by (simp add: stateLoop_other)
  qed
qed

lemma setBits_fit:
  assumes "8 * length b \<le> 2 ^ 16" and "p \<in> set (setBits b)"
  shows "unat (EvCode_of p) = p"
proof -
  have "p < 8 * length b" using assms(2) by (rule setBits_bound)
  then have "p < 2 ^ 16" using assms(1) by (rule less_le_trans)
  then show ?thesis by (rule unat_EvCode_of)
qed

lemma inj_on_EvCode_of_setBits:
  assumes "8 * length b \<le> 2 ^ 16"
  shows "inj_on EvCode_of (set (setBits b))"
proof (rule inj_onI)
  fix p q
  assume p: "p \<in> set (setBits b)" and q: "q \<in> set (setBits b)"
    and e: "EvCode_of p = EvCode_of q"
  have "p = unat (EvCode_of p)" using setBits_fit [OF assms p] by (rule sym)
  also have "\<dots> = unat (EvCode_of q)" by (simp only: e)
  also have "\<dots> = q" by (rule setBits_fit [OF assms q])
  finally show "p = q" .
qed

text \<open>
  Claim C2. For a type among key, switch, LED and sound that the device marks as supported,
  and for every state bit-field the state query returns, \<open>State\<close> returns a map whose keys are
  exactly the converted positions set in the bit-field of supported codes. When that
  bit-field has at most \<open>2 ^ 16\<close> positions, as every bit-field of the transport has, the
  conversion to the 16-bit code loses nothing: a code is a key exactly when its bit is
  set in the supported-codes bit-field, its value is its bit of the state bit-field, and a
  code whose bit is set in the state bit-field only is absent.
\<close>

theorem State_keys_are_supported_codes:
  assumes q0: "syscall (ioctlEVIOCGBIT K (Fd (devfile d)) 0) w = (Inr evBits, w1)"
    and marked: "bitIsSet evBits (unat t)"
    and q1: "syscall (ioctlEVIOCGBIT K (Fd (devfile d)) (unat t)) w1 = (Inr codeBits, w2)"
    and t: "t \<in> {EV_KEY c, EV_SW c, EV_LED c, EV_SND c}"
    and q2: "stateSwitch c K (Fd (devfile d)) t w2 = (Inr stateBits, w3)"
  shows "\<exists>st. State c K d t w = (Inr st, w3) \<and>
           dom st = EvCode_of ` {p. bitIsSet codeBits p} \<and>
           (8 * length codeBits \<le> 2 ^ 16 \<longrightarrow>
              (\<forall>code. st code = (if bitIsSet codeBits (unat code)
                                 then Some (bitIsSet stateBits (unat code)) else None)))"
proof -
  define st where "st = stateLoop stateBits (setBits codeBits) Map.empty"
  have run: "State c K d t w = (Inr st, w3)"
    using q0 marked q1 q2 by (simp add: State_def newBitmap_def st_def)
  have keys: "dom st = EvCode_of ` {p. bitIsSet codeBits p}"
    by (simp add: st_def dom_stateLoop bitIsSet_iff_setBits)
  have vals: "st code = (if bitIsSet codeBits (unat code)
                         then Some (bitIsSet stateBits (unat code)) else None)"
    if fit: "8 * length codeBits \<le> 2 ^ 16" for code
  proof (cases "bitIsSet codeBits (unat code)")
    case True
    then have "unat code \<in> set (setBits codeBits)" by (simp add: bitIsSet_iff_setBits)
    then have "st (EvCode_of (unat code)) = Some (bitIsSet stateBits (unat code))"
      unfolding st_def by (rule stateLoop_value [OF inj_on_EvCode_of_setBits [OF fit]])
    then show ?thesis using True by (simp add: EvCode_of_unat)
  next
    case False
    have "code \<notin> EvCode_of ` set (setBits codeBits)"
    proof
      assume "code \<in> EvCode_of ` set (setBits codeBits)"
      then obtain p where p: "p \<in> set (setBits codeBits)" "code = EvCode_of p" by auto
      have "unat (EvCode_of p) = p" by (rule setBits_fit [OF fit p(1)])
      then have "unat code = p" using p(2) by (simp only:)
      then show False using p(1) False by (simp add: bitIsSet_iff_setBits)
    qed
    then have "st code = None" unfolding st_def by (simp add: stateLoop_other)
    then show ?thesis using False by simp
  qed
  show ?thesis using run keys vals by blast
qed

theorem State_keys_are_supported_codes_witness:
  "syscall (ioctlEVIOCGBIT (simKernel []) (Fd (devfile simDevice)) 0) (simWorld 10)
     = (Inr [0x2F, 0x00, 0x06], simWorld 9) \<and>
   bitIsSet [0x2F, 0x00, 0x06] (unat (1 :: EvType)) \<and>
   syscall (ioctlEVIOCGBIT (simKernel []) (Fd (devfile simDevice)) (unat (1 :: EvType))) (simWorld 9)
     = (Inr [0x06], simWorld 8) \<and>
   (1 :: EvType) \<in> {EV_KEY kernelCodes, EV_SW kernelCodes, EV_LED kernelCodes, EV_SND kernelCodes} \<and>
   stateSwitch kernelCodes (simKernel []) (Fd (devfile simDevice)) 1 (simWorld 8)
     = (Inr [0x0C], simWorld 7) \<and>
   8 * length [0x06 :: byte] \<le> 2 ^ 16 \<and>
   (\<exists>st. State kernelCodes (simKernel []) simDevice 1 (simWorld 10) = (Inr st, simWorld 7) \<and>
      st 1 = Some False \<and> st 2 = Some True \<and> st 3 = None \<and> bitIsSet [0x0C] 3)"
proof -
  have q0: "syscall (ioctlEVIOCGBIT (simKernel []) (Fd (devfile simDevice)) 0) (simWorld 10)
     = (Inr [0x2F, 0x00, 0x06], simWorld 9)"
    by (simp add: sim_defs)
  have b: "bitIsSet [0x2F, 0x00, 0x06] (unat (1 :: EvType))"
    by (simp add: bitIsSet_def)
  have q1: "syscall (ioctlEVIOCGBIT (simKernel []) (Fd (devfile simDevice)) (unat (1 :: EvType)))
      (simWorld 9) = (Inr [0x06], simWorld 8)"
    by (simp add: sim_defs)
  have t: "(1 :: EvType) \<in> {EV_KEY kernelCodes, EV_SW kernelCodes, EV_LED kernelCodes, EV_SND kernelCodes}"
    by (simp add: kernelCodes_def)
  have q2: "stateSwitch kernelCodes (simKernel []) (Fd (devfile simDevice)) 1 (simWorld 8)
     = (Inr [0x0C], simWorld 7)"
    by (simp add: stateSwitch_def sim_defs)
  have fit: "8 * length [0x06 :: byte] \<le> 2 ^ 16" by simp
  obtain st where run: "State kernelCodes (simKernel []) simDevice 1 (simWorld 10) = (Inr st, simWorld 7)"
    and vals: "\<And>code. st code = (if bitIsSet [0x06] (unat code)
                                  then Some (bitIsSet [0x0C] (unat code)) else None)"
    using State_keys_are_supported_codes [OF q0 b q1 t q2] fit by blast
  have "st 1 = Some False" "st 2 = Some True" "st 3 = None" "bitIsSet [0x0C] 3"
    by (simp_all add: vals bitIsSet_def)
  then show ?thesis using q0 b q1 t q2 fit run by blast
qed

subsection \<open>Axis infos\<close>

lemma map_fst_absQueries: "map fst (absQueries K n ps w) = ps"
  by (induction ps arbitrary: w) (auto split: prod.splits)

lemma dom_absLoop:
  "dom (fst (absLoop K n ps a w))
     = dom a \<union> {EvCode_of p | p info. (p, Inr info) \<in> set (absQueries K n ps w)}"
proof (induction ps arbitrary: a w)
  case Nil
  show ?case by simp
next
  case (Cons q qs)
  obtain r w' where s: "syscall (ioctlEVIOCGABS K n q) w = (r, w')" by (cases "syscall (ioctlEVIOCGABS K n q) w")
  have IH: "dom (fst (absLoop K n qs b w'))
      = dom b \<union> {EvCode_of p | p info. (p, Inr info) \<in> set (absQueries K n qs w')}" for b
    by (rule Cons.IH)
  have qs: "absQueries K n (q # qs) w = (q, r) # absQueries K n qs w'"
    using s by simp
  show ?case
  proof (cases r)
    case (Inl err)
    have "absLoop K n (q # qs) a w = absLoop K n qs a w'" using s Inl by simp
    moreover have "{EvCode_of p | p info. (p, Inr info) \<in> set (absQueries K n (q # qs) w)}
        = {EvCode_of p | p info. (p, Inr info) \<in> set (absQueries K n qs w')}"
      unfolding qs using Inl by auto
    ultimately show ?thesis using IH [of a] by (simp only:)
  next
    case (Inr info)
    have "absLoop K n (q # qs) a w = absLoop K n qs (a(EvCode_of q \<mapsto> info)) w'"
      using s Inr by simp
    moreover have "{EvCode_of p | p i. (p, Inr i) \<in> set (absQueries K n (q # qs) w)}
        = insert (EvCode_of q) {EvCode_of p | p i. (p, Inr i) \<in> set (absQueries K n qs w')}"
      unfolding qs using Inr by auto
    moreover have "dom (a(EvCode_of q \<mapsto> info)) = insert (EvCode_of q) (dom a)" by simp
    ultimately show ?thesis using IH [of "a(EvCode_of q \<mapsto> info)"]
      by (simp only: Un_insert_left Un_insert_right)
  qed
qed

lemma absLoop_other:
  "code \<notin> EvCode_of ` set ps \<Longrightarrow> fst (absLoop K n ps a w) code = a code"
  by (induction ps arbitrary: a w) (auto split: prod.splits sum.splits)

lemma absLoop_value:
  assumes "inj_on EvCode_of (set ps)" and "distinct ps"
    and "(p, r) \<in> set (absQueries K n ps w)"
  shows "fst (absLoop K n ps a w) (EvCode_of p)
           = (case r of Inl err \<Rightarrow> a (EvCode_of p) | Inr info \<Rightarrow> Some info)"
  using assms
proof (induction ps arbitrary: a w)
  case Nil
  then show ?case by simp
next
  case (Cons q qs)
  obtain r0 w' where s: "syscall (ioctlEVIOCGABS K n q) w = (r0, w')"
    by (cases "syscall (ioctlEVIOCGABS K n q) w")
  define a' where "a' = (case r0 of Inl err \<Rightarrow> a | Inr info \<Rightarrow> a(EvCode_of q \<mapsto> info))"
  have step: "absLoop K n (q # qs) a w = absLoop K n qs a' w'"
    using s by (simp add: a'_def split: sum.splits)
  have inj: "inj_on EvCode_of (set qs)" and dist: "distinct qs" and qn: "q \<notin> set qs"
    using Cons.prems(1,2) by (simp_all add: inj_on_def)
  have fresh: "EvCode_of q \<notin> EvCode_of ` set qs"
  proof
    assume "EvCode_of q \<in> EvCode_of ` set qs"
    then obtain x where x: "x \<in> set qs" "EvCode_of q = EvCode_of x" by auto
    then have "q = x" using Cons.prems(1) by (simp add: inj_on_def)
    then show False using x(1) qn by simp
  qed
  have mem: "(p, r) = (q, r0) \<or> (p, r) \<in> set (absQueries K n qs w')"
    using Cons.prems(3) s by simp
  show ?case
  proof (cases "(p, r) \<in> set (absQueries K n qs w')")
    case True
    then have "p \<in> set (map fst (absQueries K n qs w'))" by (metis fst_conv image_eqI set_map)
    then have pq: "p \<in> set qs" by (simp only: map_fst_absQueries)
    then have "EvCode_of p \<in> EvCode_of ` set qs" by (rule imageI)
    then have "EvCode_of p \<noteq> EvCode_of q" using fresh by (metis)
    then have same: "a' (EvCode_of p) = a (EvCode_of p)" by (simp add: a'_def split: sum.splits)
    have "fst (absLoop K n qs a' w') (EvCode_of p)
        = (case r of Inl err \<Rightarrow> a' (EvCode_of p) | Inr info \<Rightarrow> Some info)"
      by (rule Cons.IH [OF inj dist True])
    then show ?thesis unfolding step using same by (simp split: sum.splits)
  next
    case False
    then have e: "p = q" "r = r0" using mem by simp_all
    have "fst (absLoop K n qs a' w') (EvCode_of q) = a' (EvCode_of q)"
      using fresh by (rule absLoop_other)
    then show ?thesis unfolding step using e by (simp add: a'_def split: sum.splits)
  qed
qed

text \<open>
  Claim C8. When the query for the absolute-axis bit-field succeeds, \<open>AbsInfos\<close> returns a
  map and no error. One axis query is issued per set bit; the keys of the map are the axes
  whose query succeeded, and an axis whose query failed is left out without any effect on
  the result being a success. When the bit-field has at most \<open>2 ^ 16\<close> positions, every
  axis whose query succeeded is mapped to the answer of its query, and every axis whose
  query failed is not a key.
\<close>

theorem AbsInfos_partial_results:
  assumes q: "syscall (ioctlEVIOCGBIT K (Fd (devfile d)) (unat (EV_ABS c))) w = (Inr absBits, w1)"
  shows "\<exists>a w2. AbsInfos c K d w = (Inr a, w2) \<and>
           map fst (absQueries K (Fd (devfile d)) (setBits absBits) w1) = setBits absBits \<and>
           dom a = {EvCode_of p | p info.
                      (p, Inr info) \<in> set (absQueries K (Fd (devfile d)) (setBits absBits) w1)} \<and>
           (8 * length absBits \<le> 2 ^ 16 \<longrightarrow>
              (\<forall>(p, r) \<in> set (absQueries K (Fd (devfile d)) (setBits absBits) w1).
                 a (EvCode_of p) = (case r of Inl err \<Rightarrow> None | Inr info \<Rightarrow> Some info)))"
proof -
  define n where "n = Fd (devfile d)"
  obtain a w2 where l: "absLoop K n (setBits absBits) Map.empty w1 = (a, w2)"
    by (cases "absLoop K n (setBits absBits) Map.empty w1")
  have run: "AbsInfos c K d w = (Inr a, w2)"
    using q l by (simp add: AbsInfos_def newBitmap_def n_def)
  have a: "a = fst (absLoop K n (setBits absBits) Map.empty w1)" using l by simp
  have keys: "dom a = {EvCode_of p | p info. (p, Inr info) \<in> set (absQueries K n (setBits absBits) w1)}"
    unfolding a by (simp add: dom_absLoop)
  have dist: "distinct (setBits absBits)"
    using sorted_setBitsFrom [of 0 absBits] by (simp add: setBits_def strict_sorted_iff)
  have vals: "a (EvCode_of p) = (case r of Inl err \<Rightarrow> None | Inr info \<Rightarrow> Some info)"
    if fit: "8 * length absBits \<le> 2 ^ 16"
      and m: "(p, r) \<in> set (absQueries K n (setBits absBits) w1)" for p r
    unfolding a
    using absLoop_value [OF inj_on_EvCode_of_setBits [OF fit] dist m, of Map.empty]
    by simp
  show ?thesis using run keys vals map_fst_absQueries [of K n "setBits absBits" w1]
    unfolding n_def by blast
qed

theorem AbsInfos_partial_results_witness:
  "syscall (ioctlEVIOCGBIT (simKernel []) (Fd (devfile simDevice)) (unat (EV_ABS kernelCodes)))
      (simWorld 10) = (Inr [0x03], simWorld 9) \<and>
   absQueries (simKernel []) (Fd (devfile simDevice)) (setBits [0x03]) (simWorld 9)
     = [(0, Inr (AbsInfo 5 0 255 0 0 0)), (1, Inl EINVAL)] \<and>
   8 * length [0x03 :: byte] \<le> 2 ^ 16 \<and>
   (\<exists>a w2. AbsInfos kernelCodes (simKernel []) simDevice (simWorld 10) = (Inr a, w2) \<and>
      a 0 = Some (AbsInfo 5 0 255 0 0 0) \<and> a 1 = None)"
proof -
  have q: "syscall (ioctlEVIOCGBIT (simKernel []) (Fd (devfile simDevice)) (unat (EV_ABS kernelCodes)))
      (simWorld 10) = (Inr [0x03], simWorld 9)"
    by (simp add: sim_defs)
  have sb: "setBits [0x03] = [0, 1]" by code_simp
  have qs: "absQueries (simKernel []) (Fd (devfile simDevice)) (setBits [0x03]) (simWorld 9)
     = [(0, Inr (AbsInfo 5 0 255 0 0 0)), (1, Inl EINVAL)]"
    unfolding sb by (simp add: sim_defs)
  have fit: "8 * length [0x03 :: byte] \<le> 2 ^ 16" by simp
  obtain a w2 where run: "AbsInfos kernelCodes (simKernel []) simDevice (simWorld 10) = (Inr a, w2)"
    and vals: "\<forall>(p, r) \<in> set (absQueries (simKernel []) (Fd (devfile simDevice)) (setBits [0x03]) (simWorld 9)).
                 a (EvCode_of p) = (case r of Inl err \<Rightarrow> None | Inr info \<Rightarrow> Some info)"
    using AbsInfos_partial_results [OF q] fit by blast
  have "a 0 = Some (AbsInfo 5 0 255 0 0 0)" "a 1 = None"
    using vals unfolding qs by (simp_all add: EvCode_of_def)
  then show ?thesis using q qs fit run by blast
qed

section \<open>Properties of opening a device\<close>

lemma os_Open_enters: "os_Open K path w = (Inr f, w1) \<Longrightarrow> Fd f \<in> open_files w1"
  by (auto simp add: os_Open_def split: prod.splits sum.splits)

lemma syscall_open_files: "syscall call w = (r, w') \<Longrightarrow> open_files w' = open_files w"
  by (auto simp add: syscall_def split: prod.splits)

text \<open>
  Claim C10. When \<open>os.Open\<close> succeeds and the driver-version query then fails, \<open>Open\<close> returns
  no handle and an error whose message starts with \<open>Cannot get driver version\<close>, and the
  descriptor it opened is still in the table of open descriptors: \<open>Open\<close> did not close it,
  and the caller has received no handle to close it with.
\<close>

theorem Open_version_failure_leaves_file_open:
  assumes "os_Open K path w = (Inr f, w1)"
    and "syscall (ioctlEVIOCGVERSION K (Fd f)) w1 = (Inl err, w2)"
  shows "Open K path w = (Inl (Errorf (''Cannot get driver version: '' @ message err)), w2) \<and>
         Fd f \<in> open_files w2"
  using assms os_Open_enters [OF assms(1)] syscall_open_files [OF assms(2)]
  by (simp add: Open_def)

theorem Open_version_failure_leaves_file_open_witness:
  "os_Open (simKernel []) ''/dev/input/event0'' \<lparr>open_files = {0, 1, 2}, kernel_state = 1\<rparr>
     = (Inr \<lparr>Fd = 3, Name = ''/dev/input/event0''\<rparr>, \<lparr>open_files = {3, 0, 1, 2}, kernel_state = 0\<rparr>) \<and>
   syscall (ioctlEVIOCGVERSION (simKernel []) 3) \<lparr>open_files = {3, 0, 1, 2}, kernel_state = 0\<rparr>
     = (Inl ENODEV, \<lparr>open_files = {3, 0, 1, 2}, kernel_state = 0\<rparr>) \<and>
   Open (simKernel []) ''/dev/input/event0'' \<lparr>open_files = {0, 1, 2}, kernel_state = 1\<rparr>
     = (Inl (Errorf ''Cannot get driver version: no such device''),
        \<lparr>open_files = {3, 0, 1, 2}, kernel_state = 0\<rparr>) \<and>
   (3 :: fd) \<in> {3, 0, 1, 2}"
proof -
  have o: "os_Open (simKernel []) ''/dev/input/event0'' \<lparr>open_files = {0, 1, 2}, kernel_state = 1\<rparr>
     = (Inr \<lparr>Fd = 3, Name = ''/dev/input/event0''\<rparr>, \<lparr>open_files = {3, 0, 1, 2}, kernel_state = 0\<rparr>)"
    by (simp add: os_Open_def sim_defs)
  have v: "syscall (ioctlEVIOCGVERSION (simKernel []) (Fd \<lparr>Fd = 3, Name = ''/dev/input/event0''\<rparr>))
      \<lparr>open_files = {3, 0, 1, 2}, kernel_state = 0\<rparr>
     = (Inl ENODEV, \<lparr>open_files = {3, 0, 1, 2}, kernel_state = 0\<rparr>)"
    by (simp add: sim_defs)
  show ?thesis
    using o v Open_version_failure_leaves_file_open [OF o v] by (simp add: ENODEV_def)
qed

section \<open>Properties of the event stream reader\<close>

lemma trimLoop_takeWhile:
  "i \<le> length events \<Longrightarrow>
     trimLoop i events
       = take i events @ takeWhile (\<lambda>e. Sec (Time e) \<noteq> 0) (drop i events)"
proof (induction i events rule: trimLoop.induct)
  case (1 i events)
  show ?case
  proof (cases "i < length events")
    case False
    then have "trimLoop i events = events" by (simp add: trimLoop.simps [of i events])
    then show ?thesis using False by simp
  next
    case True
    then have d: "drop i events = events ! i # drop (Suc i) events"
      by (simp add: Cons_nth_drop_Suc)
    show ?thesis
    proof (cases "Sec (Time (events ! i)) = 0")
      case z: True
      then show ?thesis using True by (simp add: trimLoop.simps [of i events] d)
    next
      case nz: False
      have "trimLoop i events = trimLoop (Suc i) events"
        using True nz by (simp add: trimLoop.simps [of i events])
      also have "\<dots> = take (Suc i) events
                         @ takeWhile (\<lambda>e. Sec (Time e) \<noteq> 0) (drop (Suc i) events)"
        using "1.IH" [OF True nz] True by simp
      also have "\<dots> = take i events @ takeWhile (\<lambda>e. Sec (Time e) \<noteq> 0) (drop i events)"
        using True nz by (simp add: d take_Suc_conv_app_nth)
      finally show ?thesis .
    qed
  qed
qed

lemma length_decodeEvents: "length (decodeEvents n b) = n"
  by (induction n arbitrary: b) simp_all

lemma File_Read_length:
  "File_Read K f buffer w = ((buffer', n, err), w') \<Longrightarrow> length buffer' = length buffer"
  by (auto simp add: File_Read_def Let_def split: prod.splits)

lemma Read_after_read:
  assumes "File_Read K (devfile d) (replicate (eventsize * 16) 0) w = ((buffer, n, err), w')"
  shows "Read K d w =
     (case err of
        Some e \<Rightarrow> ((replicate 16 zeroEvent, Some e), w')
      | None \<Rightarrow> ((takeWhile (\<lambda>e. Sec (Time e) \<noteq> 0) (decodeEvents 16 buffer), None), w'))"
proof -
  have "length buffer = eventsize * 16"
    using File_Read_length [OF assms] by simp
  then have dec: "binary_Read_events buffer 16 = Inr (decodeEvents 16 buffer)"
    by (simp add: binary_Read_events_def)
  have "trimLoop 0 (decodeEvents 16 buffer)
      = takeWhile (\<lambda>e. Sec (Time e) \<noteq> 0) (decodeEvents 16 buffer)"
    by (simp add: trimLoop_takeWhile)
  then show ?thesis using assms dec
    by (simp add: Read_def Let_def split: option.splits)
qed

lemma ReadOne_after_read:
  assumes "File_Read K (devfile d) (replicate eventsize 0) w = ((buffer, n, err), w')"
  shows "ReadOne K d w =
     (case err of
        Some e \<Rightarrow> ((Some zeroEvent, Some e), w')
      | None \<Rightarrow> ((Some (decodeEvent buffer), None), w'))"
proof -
  have l: "length buffer = eventsize"
    using File_Read_length [OF assms] by simp
  then have dec: "binary_Read_event buffer = Inr (decodeEvent buffer)"
    by (simp add: binary_Read_event_def)
  show ?thesis using assms dec
    by (simp add: ReadOne_def Let_def split: option.splits)
qed

text \<open>
  Claim C1. After a stream read without error the buffer decodes to 16 records, and \<open>Read\<close>
  returns the records before the first one, counting up from index 0, whose seconds are
  zero. So when the records are \<open>k < 16\<close> records with non-zero seconds followed by records
  with zero seconds, the result is exactly the first \<open>k\<close>; and when all 16 have non-zero
  seconds, the result is all 16.
\<close>

theorem Read_truncates_at_first_zero_seconds:
  assumes read: "File_Read K (devfile d) (replicate (eventsize * 16) 0) w = ((buffer, n, None), w')"
  shows "length (decodeEvents 16 buffer) = 16 \<and>
         Read K d w = ((takeWhile (\<lambda>e. Sec (Time e) \<noteq> 0) (decodeEvents 16 buffer), None), w') \<and>
         (\<forall>valid pad.
            decodeEvents 16 buffer = valid @ pad \<and> length valid < 16 \<and>
            (\<forall>e \<in> set valid. Sec (Time e) \<noteq> 0) \<and> (\<forall>e \<in> set pad. Sec (Time e) = 0)
              \<longrightarrow> Read K d w = ((valid, None), w')) \<and>
         ((\<forall>e \<in> set (decodeEvents 16 buffer). Sec (Time e) \<noteq> 0)
              \<longrightarrow> Read K d w = ((decodeEvents 16 buffer, None), w'))"
proof -
  let ?P = "\<lambda>e. Sec (Time e) \<noteq> 0"
  have run: "Read K d w = ((takeWhile ?P (decodeEvents 16 buffer), None), w')"
    using Read_after_read [OF read] by simp
  have part: "Read K d w = ((valid, None), w')"
    if "decodeEvents 16 buffer = valid @ pad" "length valid < 16"
      "\<forall>e \<in> set valid. Sec (Time e) \<noteq> 0" "\<forall>e \<in> set pad. Sec (Time e) = 0" for valid pad
  proof -
    have "takeWhile ?P pad = []" using that(4) by (cases pad) simp_all
    then have "takeWhile ?P (valid @ pad) = valid"
      using that(3) by (simp add: takeWhile_append2)
    then show ?thesis using run that(1) by simp
  qed
  have full: "Read K d w = ((decodeEvents 16 buffer, None), w')"
    if "\<forall>e \<in> set (decodeEvents 16 buffer). Sec (Time e) \<noteq> 0"
    using run that by (simp add: takeWhile_eq_all_conv [THEN iffD2])
  show ?thesis using run part full length_decodeEvents [of 16 buffer] by blast
qed

theorem Read_truncates_at_first_zero_seconds_witness:
  "File_Read (simKernel (keyPress @ keyPress)) (devfile simDevice) (replicate (eventsize * 16) 0)
      (simWorld 10) = ((keyPress @ keyPress @ replicate 336 0, 48, None), simWorld 9) \<and>
   decodeEvents 16 (keyPress @ keyPress @ replicate 336 0)
     = [keyPressEvent, keyPressEvent] @ replicate 14 zeroEvent \<and>
   length [keyPressEvent, keyPressEvent] < 16 \<and>
   Sec (Time keyPressEvent) \<noteq> 0 \<and> Sec (Time zeroEvent) = 0 \<and>
   Read (simKernel (keyPress @ keyPress)) simDevice (simWorld 10)
     = (([keyPressEvent, keyPressEvent], None), simWorld 9) \<and>
   File_Read (simKernel (concat (replicate 16 keyPress))) (devfile simDevice)
      (replicate (eventsize * 16) 0) (simWorld 10)
     = ((concat (replicate 16 keyPress), 384, None), simWorld 9) \<and>
   decodeEvents 16 (concat (replicate 16 keyPress)) = replicate 16 keyPressEvent \<and>
   Read (simKernel (concat (replicate 16 keyPress))) simDevice (simWorld 10)
     = ((replicate 16 keyPressEvent, None), simWorld 9)"
proof -
  have r2: "File_Read (simKernel (keyPress @ keyPress)) (devfile simDevice)
      (replicate (eventsize * 16) 0) (simWorld 10)
      = ((keyPress @ keyPress @ replicate 336 0, 48, None), simWorld 9)"
    by (simp add: File_Read_def sim_defs eventsize_def keyPress_def)
  have d2: "decodeEvents 16 (keyPress @ keyPress @ replicate 336 0)
      = [keyPressEvent, keyPressEvent] @ replicate 14 zeroEvent"
    by code_simp
  have v2: "\<forall>e \<in> set [keyPressEvent, keyPressEvent]. Sec (Time e) \<noteq> 0"
    by (simp add: keyPressEvent_def)
  have p2: "\<forall>e \<in> set (replicate 14 zeroEvent). Sec (Time e) = 0"
    by (simp add: zeroEvent_def)
  have l2: "length [keyPressEvent, keyPressEvent] < 16" by simp
  have R2: "Read (simKernel (keyPress @ keyPress)) simDevice (simWorld 10)
      = (([keyPressEvent, keyPressEvent], None), simWorld 9)"
    using Read_truncates_at_first_zero_seconds [OF r2] d2 l2 v2 p2 by blast
  have r16: "File_Read (simKernel (concat (replicate 16 keyPress))) (devfile simDevice)
      (replicate (eventsize * 16) 0) (simWorld 10)
      = ((concat (replicate 16 keyPress), 384, None), simWorld 9)"
    by (simp add: File_Read_def sim_defs eventsize_def keyPress_def numeral_eq_Suc)
  have d16: "decodeEvents 16 (concat (replicate 16 keyPress)) = replicate 16 keyPressEvent"
    by code_simp
  have v16: "\<forall>e \<in> set (replicate 16 keyPressEvent). Sec (Time e) \<noteq> 0"
    by (simp add: keyPressEvent_def)
  have R16: "Read (simKernel (concat (replicate 16 keyPress))) simDevice (simWorld 10)
      = ((replicate 16 keyPressEvent, None), simWorld 9)"
    using Read_truncates_at_first_zero_seconds [OF r16] v16 unfolding d16 by blast
  have k: "Sec (Time keyPressEvent) \<noteq> 0" by (simp add: keyPressEvent_def)
  have z: "Sec (Time zeroEvent) = 0" by (simp add: zeroEvent_def)
  show ?thesis using r2 d2 l2 k z R2 r16 d16 R16 by blast
qed

text \<open>
  Claim C3, as the code has it. \<open>Read\<close> and \<open>ReadOne\<close> drop the number of bytes the stream read
  returns and look at its error only. They return an error exactly when the stream read
  does, and then that error; when it returns none, whatever the number \<open>n\<close> of bytes
  delivered, the buffer, whose bytes from \<open>n\<close> on are still zero, is decoded in full and
  the records are returned without error.
\<close>

theorem read_error_is_the_stream_error:
  "(File_Read K (devfile d) (replicate (eventsize * 16) 0) w = ((buffer, n, err), w')
      \<longrightarrow> Read K d w =
            (case err of
               Some e \<Rightarrow> ((replicate 16 zeroEvent, Some e), w')
             | None \<Rightarrow> ((takeWhile (\<lambda>e. Sec (Time e) \<noteq> 0) (decodeEvents 16 buffer), None), w'))) \<and>
   (File_Read K (devfile d) (replicate eventsize 0) v = ((buffer1, n1, err1), v')
      \<longrightarrow> ReadOne K d v =
            (case err1 of
               Some e \<Rightarrow> ((Some zeroEvent, Some e), v')
             | None \<Rightarrow> ((Some (decodeEvent buffer1), None), v')))"
  using Read_after_read [of K d w buffer n err w'] ReadOne_after_read [of K d v buffer1 n1 err1 v']
  by blast

theorem read_error_is_the_stream_error_witness:
  "File_Read (simKernel keyPress) (devfile simDevice) (replicate (eventsize * 16) 0) (simWorld 10)
     = ((keyPress @ replicate 360 0, 24, None), simWorld 9) \<and>
   Read (simKernel keyPress) simDevice (simWorld 10)
     = ((takeWhile (\<lambda>e. Sec (Time e) \<noteq> 0) (decodeEvents 16 (keyPress @ replicate 360 0)), None),
        simWorld 9) \<and>
   File_Read (simKernel keyPress) (devfile simDevice) (replicate eventsize 0) (simWorld 0)
     = ((replicate 24 0, 0, Some ENODEV), simWorld 0) \<and>
   ReadOne (simKernel keyPress) simDevice (simWorld 0) = ((Some zeroEvent, Some ENODEV), simWorld 0)"
proof -
  have r: "File_Read (simKernel keyPress) (devfile simDevice) (replicate (eventsize * 16) 0)
      (simWorld 10) = ((keyPress @ replicate 360 0, 24, None), simWorld 9)"
    by (simp add: File_Read_def sim_defs eventsize_def keyPress_def)
  have r1: "File_Read (simKernel keyPress) (devfile simDevice) (replicate eventsize 0) (simWorld 0)
      = ((replicate 24 0, 0, Some ENODEV), simWorld 0)"
    by (simp add: File_Read_def sim_defs eventsize_def)
  show ?thesis
    using r r1
      read_error_is_the_stream_error [where K = "simKernel keyPress" and d = simDevice
        and w = "simWorld 10" and buffer = "keyPress @ replicate 360 0" and n = 24
        and err = None and w' = "simWorld 9" and v = "simWorld 0"
        and ?buffer1.0 = "replicate 24 0" and ?n1.0 = 0 and ?err1.0 = "Some ENODEV"
        and v' = "simWorld 0"]
    by simp
qed

text \<open>
  The claim as written fails on a short read that reports no error. A read that delivers
  one record of the 16 asked for makes \<open>Read\<close> return that record and no error; a read that
  delivers 3 bytes of the 24 asked for makes \<open>ReadOne\<close> return the record decoded from those
  bytes and 21 zero bytes, and no error.
\<close>

theorem short_read_counterexample:
  "File_Read (simKernel keyPress) (devfile simDevice) (replicate (eventsize * 16) 0) (simWorld 10)
     = ((keyPress @ replicate 360 0, 24, None), simWorld 9) \<and>
   24 < eventsize * 16 \<and>
   Read (simKernel keyPress) simDevice (simWorld 10) = (([keyPressEvent], None), simWorld 9) \<and>
   File_Read (simKernel [0xE8, 0x03, 0]) (devfile simDevice) (replicate eventsize 0) (simWorld 10)
     = (([0xE8, 0x03, 0] @ replicate 21 0, 3, None), simWorld 9) \<and>
   3 < eventsize \<and>
   ReadOne (simKernel [0xE8, 0x03, 0]) simDevice (simWorld 10)
     = ((Some \<lparr>Time = \<lparr>Sec = 1000, Usec = 0\<rparr>, Type = 0, Code = 0, Value = 0\<rparr>, None), simWorld 9)"
proof -
  have r: "File_Read (simKernel keyPress) (devfile simDevice) (replicate (eventsize * 16) 0)
      (simWorld 10) = ((keyPress @ replicate 360 0, 24, None), simWorld 9)"
    by (simp add: File_Read_def sim_defs eventsize_def keyPress_def)
  have d: "takeWhile (\<lambda>e. Sec (Time e) \<noteq> 0) (decodeEvents 16 (keyPress @ replicate 360 0))
      = [keyPressEvent]"
    by code_simp
  have R: "Read (simKernel keyPress) simDevice (simWorld 10) = (([keyPressEvent], None), simWorld 9)"
    using Read_after_read [OF r] by (simp add: d)
  have r1: "File_Read (simKernel [0xE8, 0x03, 0]) (devfile simDevice) (replicate eventsize 0)
      (simWorld 10) = (([0xE8, 0x03, 0] @ replicate 21 0, 3, None), simWorld 9)"
    by (simp add: File_Read_def sim_defs eventsize_def)
  have d1: "decodeEvent ([0xE8, 0x03, 0] @ replicate 21 0)
      = \<lparr>Time = \<lparr>Sec = 1000, Usec = 0\<rparr>, Type = 0, Code = 0, Value = 0\<rparr>"
    by code_simp
  have R1: "ReadOne (simKernel [0xE8, 0x03, 0]) simDevice (simWorld 10)
     = ((Some \<lparr>Time = \<lparr>Sec = 1000, Usec = 0\<rparr>, Type = 0, Code = 0, Value = 0\<rparr>, None), simWorld 9)"
    using ReadOne_after_read [OF r1] unfolding d1 by simp
  show ?thesis using r R r1 R1 by (simp add: eventsize_def)
qed

end
